theory Spec2Isabelle
  imports Complex_Main
begin

section \<open>Numbers\<close>

text \<open>
  The component computes in single and double precision. Here a number is a real and
  \<open>sqrt\<close>, \<open>sin\<close>, \<open>cos\<close>, \<open>acos\<close> and \<open>atan2\<close> are the mathematical functions;
  the rounding of each operation is not part of the model. What the hardware does
  outside the reals is kept as a value of its own: a division by zero and an \<open>acos\<close>
  of an argument outside \<open>[-1, 1]\<close> give \<open>None\<close>, which stands for the infinity or NaN
  that the machine stores there. No operation of this file turns such a value back into
  a finite number, so \<open>None\<close> is passed on to the result.

  The statements about \<open>getRot\<close>, the round trip and \<open>slerp\<close> are chosen to hold of
  the rounded computation too. A formula for a result is read in the arithmetic of the
  code. A relation between results (a round trip) is stated within a tolerance. Inputs
  whose single-precision squares would underflow to zero or overflow are outside the
  hypotheses.
\<close>

definition fdiv :: "real \<Rightarrow> real \<Rightarrow> real option" where
  "fdiv a b = (if b = 0 then None else Some (a / b))"



text \<open>
  The C library's \<open>atan2 y x\<close>: the angle of the point \<open>(x, y)\<close>, with the values
  the library gives on the axes (the reals have one zero only, the positive one of C).
\<close>

definition atan2 :: "real \<Rightarrow> real \<Rightarrow> real" where
  "atan2 y x =
     (if 0 < x then arctan (y / x)
      else if x < 0 then (if 0 \<le> y then arctan (y / x) + pi else arctan (y / x) - pi)
      else if 0 < y then pi / 2
      else if y < 0 then - (pi / 2)
      else 0)"

section \<open>The collaborator types\<close>

text \<open>
  Modelled from the spec: the three-component vector type (header \<open>osg/Vec3\<close>) with its
  component access, cross product \<open>^\<close>, length and division by a scalar, and the matrix
  type (header \<open>osg/Types\<close>) read and written by row and column index. The headers are
  not among the sources, so these follow sections 2 and 3 of the specification.
\<close>

record Vec3 =
  vx :: real
  vy :: real
  vz :: real

definition vec3_at :: "Vec3 \<Rightarrow> nat \<Rightarrow> real" where
  "vec3_at v n = (if n = 0 then vx v else if n = 1 then vy v else vz v)"

definition vec3_upd :: "Vec3 \<Rightarrow> nat \<Rightarrow> real \<Rightarrow> Vec3" where
  "vec3_upd v n r =
     (if n = 0 then v\<lparr>vx := r\<rparr> else if n = 1 then v\<lparr>vy := r\<rparr> else v\<lparr>vz := r\<rparr>)"

definition cross :: "Vec3 \<Rightarrow> Vec3 \<Rightarrow> Vec3" where
  "cross a b =
     \<lparr>vx = vy a * vz b - vz a * vy b,
      vy = vz a * vx b - vx a * vz b,
      vz = vx a * vy b - vy a * vx b\<rparr>"

definition length3 :: "Vec3 \<Rightarrow> real" where
  "length3 v = sqrt (vx v * vx v + vy v * vy v + vz v * vz v)"

definition vec3_div :: "Vec3 \<Rightarrow> real \<Rightarrow> Vec3 option" where
  "vec3_div v r =
     (if r = 0 then None else Some \<lparr>vx = vx v / r, vy = vy v / r, vz = vz v / r\<rparr>)"

type_synonym Matrix = "nat \<Rightarrow> nat \<Rightarrow> real"

definition rows :: "real list list \<Rightarrow> Matrix" where
  "rows rs = (\<lambda>r c. rs ! r ! c)"

section \<open>The quaternion\<close>

text \<open>
  \<open>_fv\<close> is a four-component vector; the source names its entries \<open>QX\<close>, \<open>QY\<close>,
  \<open>QZ\<close> and \<open>QW\<close>. Every member function overwrites the whole of \<open>_fv\<close>, so each
  is a function that returns the new quaternion.
\<close>

record Quat =
  QX :: real
  QY :: real
  QZ :: real
  QW :: real

text \<open>
  Modelled from the spec: the four-component vector arithmetic (header \<open>osg/Vec4\<close>)
  that \<open>slerp\<close> uses: dot product, scaling and sum.
\<close>

definition dot4 :: "Quat \<Rightarrow> Quat \<Rightarrow> real" where
  "dot4 a b = QX a * QX b + QY a * QY b + QZ a * QZ b + QW a * QW b"



subsection \<open>makeRot: angle and axis\<close>

text \<open>
  \<open>Quat::makeRot(angle, x, y, z)\<close>. With a zero axis \<open>inversenorm\<close> is \<open>1/0\<close> and
  the three products \<open>0 * sinhalfangle * inversenorm\<close> are NaN: the result is \<open>None\<close>.
\<close>

definition makeRot :: "real \<Rightarrow> real \<Rightarrow> real \<Rightarrow> real \<Rightarrow> Quat option" where
  "makeRot angle x y z =
     (let angle' = - angle in
      case fdiv 1 (sqrt (x * x + y * y + z * z)) of
        None \<Rightarrow> None
      | Some inversenorm \<Rightarrow>
          (let coshalfangle = cos (0.5 * angle');
               sinhalfangle = sin (0.5 * angle')
           in Some \<lparr>QX = x * sinhalfangle * inversenorm,
                    QY = y * sinhalfangle * inversenorm,
                    QZ = z * sinhalfangle * inversenorm,
                    QW = coshalfangle\<rparr>))"

text \<open>\<open>Quat::makeRot(angle, vec)\<close>.\<close>

definition makeRot_vec :: "real \<Rightarrow> Vec3 \<Rightarrow> Quat option" where
  "makeRot_vec angle vec = makeRot angle (vec3_at vec 0) (vec3_at vec 1) (vec3_at vec 2)"

subsection \<open>makeRot: the axis for two opposite vectors\<close>

text \<open>
  The axis of the opposite-vectors branch: the position of the component of \<open>vec1\<close>
  that is biggest in magnitude, a zero put there in \<open>(1, 1, 1)\<close>, and the cross
  product of \<open>vec1\<close> with that.
\<close>

definition bigposn :: "Vec3 \<Rightarrow> nat" where
  "bigposn vec1 =
     (let biggest = \<bar>vec3_at vec1 0\<bar>; posn = 0;
          (biggest, posn) =
             (if \<bar>vec3_at vec1 1\<bar> > biggest then (\<bar>vec3_at vec1 1\<bar>, 1) else (biggest, posn));
          (biggest, posn) =
             (if \<bar>vec3_at vec1 2\<bar> > biggest then (\<bar>vec3_at vec1 2\<bar>, 2) else (biggest, posn))
      in posn)"

definition opposite_axis :: "Vec3 \<Rightarrow> Vec3" where
  "opposite_axis vec1 =
     (let temp = \<lparr>vx = 1, vy = 1, vz = 1\<rparr>;
          temp = vec3_upd temp (bigposn vec1) 0
      in cross vec1 temp)"

subsection \<open>getRot\<close>

text \<open>
  \<open>Quat::getRot(angle, vec)\<close>: the angle and the axis. The division of the vector by
  \<open>sinhalfangle\<close> is not guarded: with \<open>sinhalfangle = 0\<close> the axis is \<open>None\<close>
  (three times \<open>0/0\<close>), the angle is still a number.
\<close>

definition getRot :: "Quat \<Rightarrow> real \<times> Vec3 option" where
  "getRot q =
     (let sinhalfangle = sqrt (QX q * QX q + QY q * QY q + QZ q * QZ q);
          angle = 2 * atan2 sinhalfangle (QW q);
          vec = vec3_div \<lparr>vx = QX q, vy = QY q, vz = QZ q\<rparr> sinhalfangle
      in (angle, vec))"

text \<open>
  Components for which the single-precision squares in \<open>makeRot\<close> and \<open>getRot\<close> are
  normal numbers: the biggest of the three magnitudes lies between \<open>2^-60\<close> and
  \<open>2^60\<close>, so that its square lies between \<open>2^-120\<close> and \<open>2^120\<close> and the sum of the
  three squares neither underflows to zero nor overflows. In this range the square
  root of the sum is a positive number in the code as it is here.
\<close>

definition normal_range :: "real \<Rightarrow> real \<Rightarrow> real \<Rightarrow> bool" where
  "normal_range x y z \<longleftrightarrow>
     1 / 2 ^ 60 \<le> max \<bar>x\<bar> (max \<bar>y\<bar> \<bar>z\<bar>) \<and> max \<bar>x\<bar> (max \<bar>y\<bar> \<bar>z\<bar>) \<le> 2 ^ 60"

text \<open>
  The single-precision number next to \<open>2 * pi\<close>, \<open>6.2831855\<close>: the biggest angle that
  \<open>getRot\<close> can store. It is above \<open>2 * pi\<close> by about \<open>1.7e-7\<close>.
\<close>

definition two_pi_single :: real where
  "two_pi_single = 13176795 / 2097152"

text \<open>The tolerance of the statements that compare a result with its ideal value.\<close>

definition tolerance :: real where
  "tolerance = 1 / 100000"

subsection \<open>slerp\<close>




subsection \<open>set: from a matrix\<close>

definition nxt :: "nat \<Rightarrow> nat" where
  "nxt i = [1, 2, 0] ! i"

text \<open>
  The second branch of \<open>Quat::set\<close> from the line \<open>tq[i] = s * 0.5f\<close> on: \<open>s\<close> has
  been computed and \<open>tq\<close> is the local array with whatever it holds. The reciprocal
  \<open>0.5f / s\<close> is taken under the test \<open>s != 0.0f\<close> only.
\<close>

definition set_fill :: "Matrix \<Rightarrow> nat \<Rightarrow> nat \<Rightarrow> nat \<Rightarrow> real \<Rightarrow> real list \<Rightarrow> Quat option" where
  "set_fill m i j k s tq =
     (let tq = tq[i := s * 0.5]
      in case (if s \<noteq> 0 then fdiv 0.5 s else Some s) of
           None \<Rightarrow> None
         | Some s \<Rightarrow>
             (let tq = tq[3 := (m j k - m k j) * s];
                  tq = tq[j := (m i j + m j i) * s];
                  tq = tq[k := (m i k + m k i) * s]
              in Some \<lparr>QX = tq ! 0, QY = tq ! 1, QZ = tq ! 2, QW = tq ! 3\<rparr>))"

text \<open>
  \<open>Quat::set(m)\<close>. The source leaves \<open>tq\<close> without initial values; its four entries
  are all written before they are read, so the array starts here as four zeros.
\<close>

definition set_Matrix :: "Matrix \<Rightarrow> Quat option" where
  "set_Matrix m =
     (let tr = m 0 0 + m 1 1 + m 2 2
      in if tr > 0 then
           (let s = sqrt (tr + 1);
                qw = s / 2
            in case fdiv 0.5 s of
                 None \<Rightarrow> None
               | Some s \<Rightarrow>
                   Some \<lparr>QX = (m 1 2 - m 2 1) * s,
                         QY = (m 2 0 - m 0 2) * s,
                         QZ = (m 0 1 - m 1 0) * s,
                         QW = qw\<rparr>)
         else
           (let i = 0;
                i = (if m 1 1 > m 0 0 then 1 else i);
                i = (if m 2 2 > m i i then 2 else i);
                j = nxt i;
                k = nxt j;
                s = sqrt ((m i i - (m j j + m k k)) + 1)
            in set_fill m i j k s [0, 0, 0, 0]))"

subsection \<open>get: to a matrix\<close>

definition get_Matrix :: "Quat \<Rightarrow> Matrix" where
  "get_Matrix q =
     (let x2 = QX q + QX q;
          y2 = QY q + QY q;
          z2 = QZ q + QZ q;
          xx = QX q * x2;
          xy = QX q * y2;
          xz = QX q * z2;
          yy = QY q * y2;
          yz = QY q * z2;
          zz = QZ q * z2;
          wx = QW q * x2;
          wy = QW q * y2;
          wz = QW q * z2
      in rows [[1 - (yy + zz), xy - wz, xz + wy, 0],
               [xy + wz, 1 - (xx + zz), yz - wx, 0],
               [xz - wy, yz + wx, 1 - (xx + yy), 0],
               [0, 0, 0, 1]])"

section \<open>The quaternion that makeRot builds\<close>

lemma sumsq_pos:
  fixes x y z :: real
  assumes "x \<noteq> 0 \<or> y \<noteq> 0 \<or> z \<noteq> 0"
  shows "0 < x * x + y * y + z * z"
proof -
  have "0 \<le> x * x" "0 \<le> y * y" "0 \<le> z * z" by simp_all
  moreover have "0 < x * x \<or> 0 < y * y \<or> 0 < z * z"
    using assms by (auto simp: zero_less_mult_iff)
  ultimately show ?thesis by linarith
qed

lemma makeRot_Some:
  assumes "x \<noteq> 0 \<or> y \<noteq> 0 \<or> z \<noteq> 0"
  shows "makeRot a x y z =
           Some \<lparr>QX = x * sin (- a / 2) / sqrt (x * x + y * y + z * z),
                 QY = y * sin (- a / 2) / sqrt (x * x + y * y + z * z),
                 QZ = z * sin (- a / 2) / sqrt (x * x + y * y + z * z),
                 QW = cos (- a / 2)\<rparr>"
proof -
  have "sqrt (x * x + y * y + z * z) \<noteq> 0"
    using sumsq_pos [OF assms] by simp
  then show ?thesis
    by (simp add: makeRot_def fdiv_def Let_def)
qed

lemma scaled_sumsq:
  fixes n :: real
  assumes "n \<noteq> 0" and "n * n = x * x + y * y + z * z"
  shows "x * s / n * (x * s / n) + y * s / n * (y * s / n) + z * s / n * (z * s / n) = s * s"
proof -
  have "x * s / n * (x * s / n) + y * s / n * (y * s / n) + z * s / n * (z * s / n)
        = s * s * ((x * x + y * y + z * z) / (n * n))"
    by (simp add: add_divide_distrib algebra_simps)
  also have "\<dots> = s * s * ((n * n) / (n * n))" by (simp only: assms(2))
  also have "\<dots> = s * s" using assms(1) by simp
  finally show ?thesis .
qed

section \<open>The axis for two opposite vectors\<close>

lemma bigposn_cases:
  "bigposn v = 0 \<and> \<bar>vy v\<bar> \<le> \<bar>vx v\<bar> \<and> \<bar>vz v\<bar> \<le> \<bar>vx v\<bar>
   \<or> bigposn v = 1 \<and> \<bar>vx v\<bar> < \<bar>vy v\<bar> \<and> \<bar>vz v\<bar> \<le> \<bar>vy v\<bar>
   \<or> bigposn v = 2 \<and> \<bar>vx v\<bar> < \<bar>vz v\<bar> \<and> \<bar>vy v\<bar> < \<bar>vz v\<bar>"
  by (simp add: bigposn_def vec3_at_def Let_def)

lemma opposite_axis_0:
  "bigposn v = 0 \<Longrightarrow> opposite_axis v = \<lparr>vx = vy v - vz v, vy = - vx v, vz = vx v\<rparr>"
  by (simp add: opposite_axis_def vec3_upd_def cross_def)

lemma opposite_axis_1:
  "bigposn v = 1 \<Longrightarrow> opposite_axis v = \<lparr>vx = vy v, vy = vz v - vx v, vz = - vy v\<rparr>"
  by (simp add: opposite_axis_def vec3_upd_def cross_def)

lemma opposite_axis_2:
  "bigposn v = 2 \<Longrightarrow> opposite_axis v = \<lparr>vx = - vz v, vy = vz v, vz = vx v - vy v\<rparr>"
  by (simp add: opposite_axis_def vec3_upd_def cross_def)

lemma opposite_axis_nonzero:
  assumes "vx v \<noteq> 0 \<or> vy v \<noteq> 0 \<or> vz v \<noteq> 0"
  shows "vx (opposite_axis v) \<noteq> 0 \<or> vy (opposite_axis v) \<noteq> 0 \<or> vz (opposite_axis v) \<noteq> 0"
proof -
  consider (x) "bigposn v = 0" "\<bar>vy v\<bar> \<le> \<bar>vx v\<bar>" "\<bar>vz v\<bar> \<le> \<bar>vx v\<bar>"
    | (y) "bigposn v = 1" "\<bar>vx v\<bar> < \<bar>vy v\<bar>"
    | (z) "bigposn v = 2" "\<bar>vx v\<bar> < \<bar>vz v\<bar>"
    using bigposn_cases [of v] by (elim disjE conjE) auto
  then show ?thesis
  proof cases
    case x
    with assms have "vx v \<noteq> 0" by auto
    then show ?thesis by (simp add: opposite_axis_0 [OF x(1)])
  next
    case y
    then have "vy v \<noteq> 0" by auto
    then show ?thesis by (simp add: opposite_axis_1 [OF y(1)])
  next
    case z
    then have "vz v \<noteq> 0" by auto
    then show ?thesis by (simp add: opposite_axis_2 [OF z(1)])
  qed
qed

lemma length3_nonzero:
  "vx v \<noteq> 0 \<or> vy v \<noteq> 0 \<or> vz v \<noteq> 0 \<Longrightarrow> length3 v \<noteq> 0"
  using sumsq_pos [of "vx v" "vy v" "vz v"] by (simp add: length3_def)

lemma makeRot_vec_Some:
  assumes "vx v \<noteq> 0 \<or> vy v \<noteq> 0 \<or> vz v \<noteq> 0"
  shows "makeRot_vec a v \<noteq> None"
  using makeRot_Some [OF assms, of a] by (simp add: makeRot_vec_def vec3_at_def)

text \<open>
  Claim C10. In the opposite-vectors branch the axis is the cross product of \<open>from\<close>
  with \<open>(1, 1, 1)\<close> zeroed at the position of the biggest component of \<open>from\<close>. For
  every \<open>from\<close> other than zero this axis is not zero, its length is not zero, and the
  \<open>makeRot\<close> called with it divides by a norm that is not zero: it returns a
  quaternion.
\<close>

theorem opposite_axis_safe:
  assumes "vx from \<noteq> 0 \<or> vy from \<noteq> 0 \<or> vz from \<noteq> 0"
  shows "(vx (opposite_axis from) \<noteq> 0 \<or> vy (opposite_axis from) \<noteq> 0
            \<or> vz (opposite_axis from) \<noteq> 0)
         \<and> length3 (opposite_axis from) \<noteq> 0
         \<and> makeRot_vec pi (opposite_axis from) \<noteq> None"
  using opposite_axis_nonzero [OF assms]
  by (simp add: length3_nonzero makeRot_vec_Some)

theorem opposite_axis_safe_witness:
  "opposite_axis \<lparr>vx = 0, vy = - 3, vz = 1\<rparr> = \<lparr>vx = - 3, vy = 1, vz = 3\<rparr>
   \<and> length3 \<lparr>vx = - 3, vy = 1, vz = 3\<rparr> \<noteq> 0
   \<and> makeRot_vec pi \<lparr>vx = - 3, vy = 1, vz = 3\<rparr> \<noteq> None"
proof -
  have eq: "opposite_axis \<lparr>vx = 0, vy = - 3, vz = 1\<rparr> = \<lparr>vx = - 3, vy = 1, vz = 3\<rparr>"
    by (simp add: opposite_axis_def bigposn_def vec3_at_def vec3_upd_def cross_def)
  have "vx \<lparr>vx = 0, vy = - 3, vz = 1\<rparr> \<noteq> 0 \<or> vy \<lparr>vx = 0, vy = - 3, vz = 1\<rparr> \<noteq> 0
        \<or> vz \<lparr>vx = 0, vy = - 3, vz = 1::real\<rparr> \<noteq> 0"
    by simp
  from opposite_axis_safe [OF this] eq show ?thesis by simp
qed

section \<open>Angle and axis read back\<close>

subsection \<open>Bounds of pi\<close>

lemma arctan_series_bounds:
  fixes x :: real
  assumes "0 \<le> x" and "x \<le> 1"
  shows "(\<Sum>i<2 * n. (- 1) ^ i * (1 / real (i * 2 + 1) * x ^ (i * 2 + 1))) \<le> arctan x"
    and "arctan x \<le> (\<Sum>i<2 * n + 1. (- 1) ^ i * (1 / real (i * 2 + 1) * x ^ (i * 2 + 1)))"
proof -
  let ?a = "\<lambda>i. 1 / real (i * 2 + 1) * x ^ (i * 2 + 1)"
  have ax: "\<bar>x\<bar> \<le> 1" using assms by simp
  have zero: "?a \<longlonglongrightarrow> 0" by (rule zeroseq_arctan_series [OF ax])
  have pos: "0 \<le> ?a i" for i using assms by simp
  have mono: "?a (Suc i) \<le> ?a i" for i
  proof -
    have "x ^ (Suc i * 2 + 1) \<le> x ^ (i * 2 + 1)"
      using assms by (intro power_decreasing) simp_all
    moreover have "1 / real (Suc i * 2 + 1) \<le> 1 / real (i * 2 + 1)"
      by (simp add: field_simps)
    moreover have "0 \<le> x ^ (Suc i * 2 + 1)" "0 \<le> 1 / real (i * 2 + 1)"
      using assms by simp_all
    ultimately show ?thesis
      by (intro mult_mono) simp_all
  qed
  have eq: "arctan x = (\<Sum>i. (- 1) ^ i * ?a i)"
    by (rule arctan_series [OF ax])
  show "(\<Sum>i<2 * n. (- 1) ^ i * ?a i) \<le> arctan x"
    unfolding eq by (rule summable_Leibniz'(2) [OF zero pos mono])
  show "arctan x \<le> (\<Sum>i<2 * n + 1. (- 1) ^ i * ?a i)"
    unfolding eq by (rule summable_Leibniz'(4) [OF zero pos mono])
qed

lemma pi_machin: "pi = 16 * arctan (1 / 5) - 4 * arctan (1 / 239)"
  using machin by simp


lemma two_pi_le_single: "2 * pi \<le> two_pi_single"
proof -
  have a: "arctan (1 / 5) \<le> (\<Sum>i<2 * 3 + 1. (- 1) ^ i * (1 / real (i * 2 + 1) * (1 / 5) ^ (i * 2 + 1)))"
    by (rule arctan_series_bounds(2)) simp_all
  have b: "(\<Sum>i<2 * 1. (- 1) ^ i * (1 / real (i * 2 + 1) * (1 / 239) ^ (i * 2 + 1))) \<le> arctan (1 / 239)"
    by (rule arctan_series_bounds(1)) simp_all
  from a b have "pi \<le> 16 * (\<Sum>i<2 * 3 + 1. (- 1) ^ i * (1 / real (i * 2 + 1) * (1 / 5) ^ (i * 2 + 1)))
      - 4 * (\<Sum>i<2 * 1. (- 1) ^ i * (1 / real (i * 2 + 1) * (1 / 239) ^ (i * 2 + 1)))"
    unfolding pi_machin by linarith
  moreover have "16 * (\<Sum>i<2 * 3 + 1. (- 1) ^ i * (1 / real (i * 2 + 1) * (1 / 5) ^ (i * 2 + 1)))
      - 4 * (\<Sum>i<2 * 1. (- 1) ^ i * (1 / real (i * 2 + 1) * (1 / 239) ^ (i * 2 + 1 :: nat)) :: real)
      \<le> 13176795 / 4194304"
    by (simp add: eval_nat_numeral)
  ultimately show ?thesis unfolding two_pi_single_def by linarith
qed


subsection \<open>The library's atan2 in the upper half plane\<close>

lemma atan2_upper_half:
  assumes "0 < y"
  shows "0 < atan2 y x" and "atan2 y x < pi"
proof -
  consider (pos) "0 < x" | (neg) "x < 0" | (zero) "x = 0" by linarith
  then have "0 < atan2 y x \<and> atan2 y x < pi"
  proof cases
    case pos
    then have "0 < y / x" using assms by simp
    then have "0 < arctan (y / x)" by simp
    moreover have "arctan (y / x) < pi / 2" by (rule arctan_ubound)
    moreover have "atan2 y x = arctan (y / x)" using pos by (simp add: atan2_def)
    ultimately show ?thesis using pi_gt_zero by linarith
  next
    case neg
    then have "y / x < 0" using assms by (simp add: divide_pos_neg)
    then have "arctan (y / x) < 0" by simp
    moreover have "- (pi / 2) < arctan (y / x)" by (rule arctan_lbound)
    moreover have "atan2 y x = arctan (y / x) + pi" using neg assms by (simp add: atan2_def)
    ultimately show ?thesis using pi_gt_zero by linarith
  next
    case zero
    then show ?thesis using assms by (simp add: atan2_def)
  qed
  then show "0 < atan2 y x" and "atan2 y x < pi" by simp_all
qed

lemma sqrt_one_plus_ratio:
  fixes x y :: real
  assumes "x \<noteq> 0"
  shows "sqrt (1 + (y / x)\<^sup>2) = sqrt (x * x + y * y) / \<bar>x\<bar>"
proof -
  have "1 + (y / x)\<^sup>2 = (x * x + y * y) / (x * x)"
    using assms by (simp add: power2_eq_square field_simps)
  then have "sqrt (1 + (y / x)\<^sup>2) = sqrt (x * x + y * y) / sqrt (x * x)"
    by (simp add: real_sqrt_divide)
  then show ?thesis by simp
qed

lemma cos_sin_atan2:
  assumes "0 < y"
  shows "cos (atan2 y x) = x / sqrt (x * x + y * y)"
    and "sin (atan2 y x) = y / sqrt (x * x + y * y)"
proof -
  have r: "sqrt (x * x + y * y) \<noteq> 0"
    using sumsq_pos [of x y 0] assms by simp
  consider (pos) "0 < x" | (neg) "x < 0" | (zero) "x = 0" by linarith
  then have "cos (atan2 y x) = x / sqrt (x * x + y * y) \<and> sin (atan2 y x) = y / sqrt (x * x + y * y)"
  proof cases
    case pos
    then have "sqrt (1 + (y / x)\<^sup>2) = sqrt (x * x + y * y) / x"
      using sqrt_one_plus_ratio [of x y] by simp
    then show ?thesis
      using pos by (simp add: atan2_def cos_arctan sin_arctan)
  next
    case neg
    then have "sqrt (1 + (y / x)\<^sup>2) = sqrt (x * x + y * y) / (- x)"
      using sqrt_one_plus_ratio [of x y] by simp
    then show ?thesis
      using neg assms by (simp add: atan2_def cos_arctan sin_arctan)
  next
    case zero
    then show ?thesis using assms by (simp add: atan2_def)
  qed
  then show "cos (atan2 y x) = x / sqrt (x * x + y * y)"
    and "sin (atan2 y x) = y / sqrt (x * x + y * y)" by simp_all
qed

lemma getRot_angle_axis:
  assumes "sqrt (QX q * QX q + QY q * QY q + QZ q * QZ q) \<noteq> 0"
  shows "getRot q =
           (2 * atan2 (sqrt (QX q * QX q + QY q * QY q + QZ q * QZ q)) (QW q),
            Some \<lparr>vx = QX q / sqrt (QX q * QX q + QY q * QY q + QZ q * QZ q),
                  vy = QY q / sqrt (QX q * QX q + QY q * QY q + QZ q * QZ q),
                  vz = QZ q / sqrt (QX q * QX q + QY q * QY q + QZ q * QZ q)\<rparr>)"
  using assms by (simp add: getRot_def vec3_div_def Let_def)

lemma normal_range_nonzero:
  assumes "normal_range x y z"
  shows "x \<noteq> 0 \<or> y \<noteq> 0 \<or> z \<noteq> 0"
proof -
  have "(0::real) < 1 / 2 ^ 60" by simp
  with assms have "0 < max \<bar>x\<bar> (max \<bar>y\<bar> \<bar>z\<bar>)"
    unfolding normal_range_def by linarith
  then show ?thesis by auto
qed

lemma normal_range_sqrt_pos:
  assumes "normal_range x y z"
  shows "0 < sqrt (x * x + y * y + z * z)"
  using sumsq_pos [OF normal_range_nonzero [OF assms]] by simp

text \<open>
  Claim C7, as amended. For every quaternion whose \<open>x\<close>, \<open>y\<close>, \<open>z\<close> are in the normal
  range (the biggest magnitude between \<open>2^-60\<close> and \<open>2^60\<close>, so that the single-precision
  \<open>sqrt(x*x + y*y + z*z)\<close> is not zero), \<open>getRot\<close> returns the angle
  \<open>2 * atan2(sqrt(x*x + y*y + z*z), w)\<close> and the axis \<open>(x, y, z)\<close> divided by that square
  root; the angle lies in the range \<open>0..2*pi\<close>, up to the rounding of the stored value:
  it is not negative and not above \<open>6.2831855\<close>, the single-precision number next to
  \<open>2 * pi\<close>. (The first argument of \<open>atan2\<close> is not negative, so \<open>atan2\<close> lies between
  \<open>0\<close> and \<open>pi\<close>, and the code doubles it.)
\<close>

theorem getRot_angle_range:
  assumes "normal_range (QX q) (QY q) (QZ q)"
  shows "getRot q =
           (2 * atan2 (sqrt (QX q * QX q + QY q * QY q + QZ q * QZ q)) (QW q),
            Some \<lparr>vx = QX q / sqrt (QX q * QX q + QY q * QY q + QZ q * QZ q),
                  vy = QY q / sqrt (QX q * QX q + QY q * QY q + QZ q * QZ q),
                  vz = QZ q / sqrt (QX q * QX q + QY q * QY q + QZ q * QZ q)\<rparr>)
         \<and> 0 \<le> fst (getRot q) \<and> fst (getRot q) \<le> two_pi_single"
proof -
  let ?s = "sqrt (QX q * QX q + QY q * QY q + QZ q * QZ q)"
  have pos: "0 < ?s" by (rule normal_range_sqrt_pos [OF assms])
  then have nz: "?s \<noteq> 0" by simp
  note g = getRot_angle_axis [OF nz]
  have "0 < atan2 ?s (QW q)" "atan2 ?s (QW q) < pi"
    using atan2_upper_half [OF pos, of "QW q"] by simp_all
  then have "0 \<le> 2 * atan2 ?s (QW q)" "2 * atan2 ?s (QW q) \<le> two_pi_single"
    using two_pi_le_single by linarith+
  with g show ?thesis by simp
qed

theorem getRot_angle_range_witness:
  "normal_range (4/5) 0 0
   \<and> getRot \<lparr>QX = 4/5, QY = 0, QZ = 0, QW = - (3/5)\<rparr>
       = (2 * atan2 (4/5) (- (3/5)), Some \<lparr>vx = 1, vy = 0, vz = 0\<rparr>)
   \<and> 0 \<le> fst (getRot \<lparr>QX = 4/5, QY = 0, QZ = 0, QW = - (3/5)\<rparr>)
   \<and> fst (getRot \<lparr>QX = 4/5, QY = 0, QZ = 0, QW = - (3/5)\<rparr>) \<le> two_pi_single"
proof -
  let ?q = "\<lparr>QX = 4/5, QY = 0, QZ = 0, QW = - (3/5) :: real\<rparr>"
  have s: "sqrt (16 / 25) = 4 / 5"
    using real_sqrt_abs [of "4 / 5"] by (simp add: power2_eq_square)
  have r: "normal_range (4/5) 0 0" by (simp add: normal_range_def)
  then have "normal_range (QX ?q) (QY ?q) (QZ ?q)" by simp
  from getRot_angle_range [OF this] r show ?thesis by (auto simp: s)
qed

text \<open>
  Claim C7 as it is written gives the range \<open>-pi..pi\<close> for the angle. The unit
  quaternion \<open>(0.8, 0, 0, -0.6)\<close> has an angle above \<open>pi\<close>.
\<close>

theorem getRot_angle_above_pi:
  "sqrt (4/5 * (4/5) + 0 * 0 + 0 * 0) \<noteq> (0::real)
   \<and> pi < fst (getRot \<lparr>QX = 4/5, QY = 0, QZ = 0, QW = - (3/5)\<rparr>)"
proof -
  have s: "sqrt (16 / 25) = 4 / 5"
    using real_sqrt_abs [of "4 / 5"] by (simp add: power2_eq_square)
  have "- (pi / 2) < arctan (- (4 / 3))" by (rule arctan_lbound)
  then have "pi / 2 < atan2 (4 / 5) (- (3 / 5))"
    by (simp add: atan2_def)
  then show ?thesis
    by (simp add: getRot_def s Let_def)
qed

subsection \<open>makeRot followed by getRot\<close>

lemma half_angle_of_atan2:
  fixes s c :: real
  assumes "s \<noteq> 0" and "c * c + s * s = 1"
  shows "0 < atan2 \<bar>s\<bar> c" and "atan2 \<bar>s\<bar> c < pi"
    and "cos (atan2 \<bar>s\<bar> c) = c" and "sin (atan2 \<bar>s\<bar> c) = \<bar>s\<bar>"
proof -
  have pos: "0 < \<bar>s\<bar>" using assms(1) by simp
  have "c * c + \<bar>s\<bar> * \<bar>s\<bar> = 1" using assms(2) by simp
  then have one: "sqrt (c * c + \<bar>s\<bar> * \<bar>s\<bar>) = 1" by simp
  show "0 < atan2 \<bar>s\<bar> c" and "atan2 \<bar>s\<bar> c < pi"
    using atan2_upper_half [OF pos] by simp_all
  show "cos (atan2 \<bar>s\<bar> c) = c" and "sin (atan2 \<bar>s\<bar> c) = \<bar>s\<bar>"
    using cos_sin_atan2 [OF pos, of c] one by simp_all
qed

lemma angle_congruent:
  fixes a \<theta> :: real
  assumes "sin (a / 2) \<noteq> 0"
    and "cos \<theta> = cos (a / 2)" and "sin \<theta> = \<bar>sin (a / 2)\<bar>"
  shows "\<exists>k::int. 2 * \<theta> = sgn (sin (a / 2)) * a + 2 * pi * real_of_int k"
proof (cases "0 < sin (a / 2)")
  case True
  then have "cos (\<theta> - a / 2) = (cos (a / 2))\<^sup>2 + (sin (a / 2))\<^sup>2"
    using assms by (simp add: cos_diff power2_eq_square)
  then have "cos (\<theta> - a / 2) = 1" by simp
  then obtain n :: int where "\<theta> - a / 2 = real_of_int n * 2 * pi"
    using cos_one_2pi_int by blast
  then have "2 * \<theta> = a + 2 * pi * (2 * real_of_int n)" by (simp add: field_simps)
  then have "2 * \<theta> = a + 2 * pi * real_of_int (2 * n)" by simp
  with True have "2 * \<theta> = sgn (sin (a / 2)) * a + 2 * pi * real_of_int (2 * n)" by simp
  then show ?thesis by (rule exI)
next
  case False
  with assms(1) have neg: "sin (a / 2) < 0" by simp
  then have "cos (\<theta> + a / 2) = (cos (a / 2))\<^sup>2 + (sin (a / 2))\<^sup>2"
    using assms by (simp add: cos_add power2_eq_square)
  then have "cos (\<theta> + a / 2) = 1" by simp
  then obtain n :: int where "\<theta> + a / 2 = real_of_int n * 2 * pi"
    using cos_one_2pi_int by blast
  then have "2 * \<theta> = - a + 2 * pi * (2 * real_of_int n)" by (simp add: field_simps)
  then have "2 * \<theta> = - a + 2 * pi * real_of_int (2 * n)" by simp
  with neg have "2 * \<theta> = sgn (sin (a / 2)) * a + 2 * pi * real_of_int (2 * n)" by simp
  then show ?thesis by (rule exI)
qed

lemma makeRot_sinhalfangle:
  assumes "x \<noteq> 0 \<or> y \<noteq> 0 \<or> z \<noteq> 0"
  shows "sqrt (x * s / sqrt (x * x + y * y + z * z) * (x * s / sqrt (x * x + y * y + z * z))
             + y * s / sqrt (x * x + y * y + z * z) * (y * s / sqrt (x * x + y * y + z * z))
             + z * s / sqrt (x * x + y * y + z * z) * (z * s / sqrt (x * x + y * y + z * z)))
         = \<bar>s\<bar>"
proof -
  let ?d = "x * x + y * y + z * z"
  have d: "0 < ?d" by (rule sumsq_pos [OF assms])
  then have "sqrt ?d \<noteq> 0" and "sqrt ?d * sqrt ?d = ?d" by simp_all
  from scaled_sumsq [OF this, of s] show ?thesis by simp
qed

lemma over_abs:
  fixes s n x :: real
  assumes "s \<noteq> 0"
  shows "x * (- s) / n / \<bar>s\<bar> = - sgn s * x / n"
  using assms by (simp add: sgn_if)

text \<open>The round trip over the reals, before any rounding.\<close>

lemma round_trip_exact:
  assumes "x \<noteq> 0 \<or> y \<noteq> 0 \<or> z \<noteq> 0" and "sin (a / 2) \<noteq> 0"
  shows "\<exists>q ang. makeRot a x y z = Some q
           \<and> getRot q = (ang, Some \<lparr>vx = - sgn (sin (a / 2)) * x / sqrt (x * x + y * y + z * z),
                                     vy = - sgn (sin (a / 2)) * y / sqrt (x * x + y * y + z * z),
                                     vz = - sgn (sin (a / 2)) * z / sqrt (x * x + y * y + z * z)\<rparr>)
           \<and> 0 < ang \<and> ang < 2 * pi
           \<and> (\<exists>k::int. ang = sgn (sin (a / 2)) * a + 2 * pi * real_of_int k)"
proof -
  let ?n = "sqrt (x * x + y * y + z * z)"
  let ?s = "sin (a / 2)"
  let ?q = "\<lparr>QX = x * sin (- a / 2) / ?n, QY = y * sin (- a / 2) / ?n,
             QZ = z * sin (- a / 2) / ?n, QW = cos (- a / 2)\<rparr>"
  let ?ang = "2 * atan2 \<bar>?s\<bar> (cos (a / 2))"
  have sh: "sqrt (QX ?q * QX ?q + QY ?q * QY ?q + QZ ?q * QZ ?q) = \<bar>?s\<bar>"
    using makeRot_sinhalfangle [OF assms(1), of "sin (- a / 2)"] by simp
  then have "sqrt (QX ?q * QX ?q + QY ?q * QY ?q + QZ ?q * QZ ?q) \<noteq> 0"
    using assms(2) by simp
  from getRot_angle_axis [OF this]
  have g: "getRot ?q = (?ang, Some \<lparr>vx = - sgn ?s * x / ?n, vy = - sgn ?s * y / ?n,
                                     vz = - sgn ?s * z / ?n\<rparr>)"
    unfolding sh using over_abs [OF assms(2)] by simp
  have unit: "cos (a / 2) * cos (a / 2) + ?s * ?s = 1" by simp
  note h = half_angle_of_atan2 [OF assms(2) unit]
  have "\<exists>k::int. ?ang = sgn ?s * a + 2 * pi * real_of_int k"
    by (rule angle_congruent [OF assms(2) h(3) h(4)])
  moreover have "0 < ?ang" "?ang < 2 * pi" using h(1) h(2) by simp_all
  ultimately show ?thesis
    using makeRot_Some [OF assms(1), of a] g by blast
qed

text \<open>
  Claim C2, as amended. For every angle \<open>a\<close> with \<open>|sin(a/2)| \<ge> 2^-60\<close> and every axis
  \<open>v\<close> in the normal range (the biggest magnitude of its components between \<open>2^-60\<close>
  and \<open>2^60\<close>), \<open>getRot\<close> of \<open>makeRot a v\<close> returns, within the tolerance \<open>1e-5\<close>, the
  axis \<open>- sgn(sin(a/2)) * v / |v|\<close>, which is parallel to \<open>v\<close>, and an angle congruent
  to \<open>sgn(sin(a/2)) * a\<close> modulo \<open>2 * pi\<close>: the angle \<open>a\<close> about \<open>- v\<close>, or the angle
  \<open>- a\<close> about \<open>v\<close>, which is the rotation that the sign flip of \<open>makeRot\<close> stores.
  The two bounds keep the single-precision squares of \<open>makeRot\<close> and of \<open>getRot\<close> away
  from zero and from overflow.
\<close>

theorem makeRot_getRot_round_trip:
  assumes "normal_range x y z" and "1 / 2 ^ 60 \<le> \<bar>sin (a / 2)\<bar>"
  shows "\<exists>q ang ax. makeRot a x y z = Some q \<and> getRot q = (ang, Some ax)
           \<and> \<bar>vx ax - (- sgn (sin (a / 2)) * x / sqrt (x * x + y * y + z * z))\<bar> \<le> tolerance
           \<and> \<bar>vy ax - (- sgn (sin (a / 2)) * y / sqrt (x * x + y * y + z * z))\<bar> \<le> tolerance
           \<and> \<bar>vz ax - (- sgn (sin (a / 2)) * z / sqrt (x * x + y * y + z * z))\<bar> \<le> tolerance
           \<and> (\<exists>k::int. \<bar>ang - (sgn (sin (a / 2)) * a + 2 * pi * real_of_int k)\<bar> \<le> tolerance)"
proof -
  have nz: "x \<noteq> 0 \<or> y \<noteq> 0 \<or> z \<noteq> 0" by (rule normal_range_nonzero [OF assms(1)])
  have "(0::real) < 1 / 2 ^ 60" by simp
  with assms(2) have s: "sin (a / 2) \<noteq> 0" by auto
  have tol: "0 \<le> tolerance" by (simp add: tolerance_def)
  from round_trip_exact [OF nz s] obtain q ang where
    m: "makeRot a x y z = Some q"
    and g: "getRot q = (ang, Some \<lparr>vx = - sgn (sin (a / 2)) * x / sqrt (x * x + y * y + z * z),
                                     vy = - sgn (sin (a / 2)) * y / sqrt (x * x + y * y + z * z),
                                     vz = - sgn (sin (a / 2)) * z / sqrt (x * x + y * y + z * z)\<rparr>)"
    and k: "\<exists>k::int. ang = sgn (sin (a / 2)) * a + 2 * pi * real_of_int k"
    by blast
  from k obtain k :: int where "ang = sgn (sin (a / 2)) * a + 2 * pi * real_of_int k" ..
  then have "\<bar>ang - (sgn (sin (a / 2)) * a + 2 * pi * real_of_int k)\<bar> \<le> tolerance"
    using tol by simp
  then have "\<exists>k::int. \<bar>ang - (sgn (sin (a / 2)) * a + 2 * pi * real_of_int k)\<bar> \<le> tolerance" ..
  with m g tol show ?thesis by auto
qed

theorem makeRot_getRot_round_trip_witness:
  "normal_range 0 0 2 \<and> 1 / 2 ^ 60 \<le> \<bar>sin (pi / 2)\<bar>
   \<and> makeRot pi 0 0 2 = Some \<lparr>QX = 0, QY = 0, QZ = - 1, QW = 0\<rparr>
   \<and> (\<exists>ang ax. getRot \<lparr>QX = 0, QY = 0, QZ = - 1, QW = 0\<rparr> = (ang, Some ax)
         \<and> \<bar>vx ax\<bar> \<le> tolerance \<and> \<bar>vy ax\<bar> \<le> tolerance \<and> \<bar>vz ax - (- 1)\<bar> \<le> tolerance
         \<and> (\<exists>k::int. \<bar>ang - (pi + 2 * pi * real_of_int k)\<bar> \<le> tolerance))"
proof -
  have r: "normal_range 0 0 2" by (simp add: normal_range_def)
  have s: "1 / 2 ^ 60 \<le> \<bar>sin (pi / 2)\<bar>" by simp
  have four: "sqrt 4 = 2" using real_sqrt_abs [of 2] by simp
  have m: "makeRot pi 0 0 2 = Some \<lparr>QX = 0, QY = 0, QZ = - 1, QW = 0\<rparr>"
    by (simp add: makeRot_def fdiv_def four)
  from makeRot_getRot_round_trip [OF r s] obtain q ang ax where
    "makeRot pi 0 0 2 = Some q"
    and g: "getRot q = (ang, Some ax)"
    and x: "\<bar>vx ax - (- sgn (sin (pi / 2)) * 0 / sqrt (0 * 0 + 0 * 0 + 2 * 2))\<bar> \<le> tolerance"
    and y: "\<bar>vy ax - (- sgn (sin (pi / 2)) * 0 / sqrt (0 * 0 + 0 * 0 + 2 * 2))\<bar> \<le> tolerance"
    and z: "\<bar>vz ax - (- sgn (sin (pi / 2)) * 2 / sqrt (0 * 0 + 0 * 0 + 2 * 2))\<bar> \<le> tolerance"
    and k: "\<exists>k::int. \<bar>ang - (sgn (sin (pi / 2)) * pi + 2 * pi * real_of_int k)\<bar> \<le> tolerance"
    by blast
  with m have q: "q = \<lparr>QX = 0, QY = 0, QZ = - 1, QW = 0\<rparr>" by simp
  from x y z k have "\<bar>vx ax\<bar> \<le> tolerance \<and> \<bar>vy ax\<bar> \<le> tolerance \<and> \<bar>vz ax - (- 1)\<bar> \<le> tolerance
         \<and> (\<exists>k::int. \<bar>ang - (pi + 2 * pi * real_of_int k)\<bar> \<le> tolerance)"
    by (simp add: four)
  with g q r s m show ?thesis by blast
qed

text \<open>
  Claim C2 as it is written speaks of every angle. At the angle \<open>0\<close> the quaternion is
  the identity \<open>(0, 0, 0, 1)\<close>, \<open>sinhalfangle\<close> is \<open>0\<close> and \<open>getRot\<close> divides the
  zero vector by it: no axis comes back.
\<close>

theorem makeRot_getRot_zero_angle:
  "makeRot 0 1 0 0 = Some \<lparr>QX = 0, QY = 0, QZ = 0, QW = 1\<rparr>
   \<and> getRot \<lparr>QX = 0, QY = 0, QZ = 0, QW = 1\<rparr> = (0, None)"
  by (simp add: makeRot_def fdiv_def getRot_def atan2_def vec3_div_def)

section \<open>Interpolation\<close>








section \<open>Matrix conversion\<close>

subsection \<open>From a matrix\<close>

lemma nxt_simps: "nxt 0 = 1" "nxt 1 = 2" "nxt (Suc 0) = 2" "nxt 2 = 0"
  by (simp_all add: nxt_def)

lemma three_cases: "i < (3::nat) \<Longrightarrow> i = 0 \<or> i = 1 \<or> i = 2"
  by arith

lemma set_fill_returns: "set_fill m i j k s tq \<noteq> None"
  by (simp add: set_fill_def fdiv_def Let_def)

lemma set_fill_overwrites:
  assumes "i < 3"
  shows "set_fill m i (nxt i) (nxt (nxt i)) s [a, b, c, d]
         = set_fill m i (nxt i) (nxt (nxt i)) s [a', b', c', d']"
  using three_cases [OF assms]
  by (elim disjE) (simp_all add: set_fill_def fdiv_def nxt_simps Let_def)

lemma set_fill_zero:
  assumes "i < 3"
  shows "set_fill m i (nxt i) (nxt (nxt i)) 0 [a, b, c, d] = Some \<lparr>QX = 0, QY = 0, QZ = 0, QW = 0\<rparr>"
  using three_cases [OF assms]
  by (elim disjE) (simp_all add: set_fill_def nxt_simps Let_def)

lemma set_Matrix_returns: "set_Matrix m \<noteq> None"
proof (cases "m 0 0 + m 1 1 + m 2 2 > 0")
  case True
  then have "sqrt (m 0 0 + m 1 1 + m 2 2 + 1) \<noteq> 0" by simp
  with True show ?thesis by (simp add: set_Matrix_def fdiv_def Let_def)
next
  case False
  then show ?thesis by (simp add: set_Matrix_def set_fill_returns Let_def)
qed

text \<open>
  In the second branch \<open>i\<close> is the position of the biggest diagonal entry and the trace
  is not positive, so the argument of the square root is at least \<open>1\<close>: over the reals
  the test \<open>s != 0.0f\<close> never fails.
\<close>

lemma set_second_branch_s_ge_one:
  assumes "\<not> m 0 0 + m 1 1 + m 2 2 > 0"
  shows "let i = 0;
             i = (if m 1 1 > m 0 0 then 1 else i);
             i = (if m 2 2 > m i i then 2 else i);
             j = nxt i;
             k = nxt j
         in 1 \<le> sqrt ((m i i - (m j j + m k k)) + 1)"
proof -
  consider (i0) "\<not> m 1 1 > m 0 0" "\<not> m 2 2 > m 0 0"
    | (i1) "m 1 1 > m 0 0" "\<not> m 2 2 > m 1 1"
    | (i2) "m 1 1 > m 0 0 \<and> m 2 2 > m 1 1 \<or> \<not> m 1 1 > m 0 0 \<and> m 2 2 > m 0 0"
    by linarith
  then show ?thesis
  proof cases
    case i0
    with assms have "1 \<le> (m 0 0 - (m 1 1 + m 2 2)) + 1" by linarith
    then have "1 \<le> sqrt ((m 0 0 - (m 1 1 + m 2 2)) + 1)" by simp
    with i0 show ?thesis by (simp add: nxt_def Let_def)
  next
    case i1
    with assms have "1 \<le> (m 1 1 - (m 2 2 + m 0 0)) + 1" by linarith
    then have "1 \<le> sqrt ((m 1 1 - (m 2 2 + m 0 0)) + 1)" by simp
    with i1 show ?thesis by (simp add: nxt_def Let_def)
  next
    case i2
    with assms have "1 \<le> (m 2 2 - (m 0 0 + m 1 1)) + 1" by linarith
    then have "1 \<le> sqrt ((m 2 2 - (m 0 0 + m 1 1)) + 1)" by simp
    with i2 show ?thesis by (auto simp add: nxt_def Let_def)
  qed
qed

text \<open>
  Claim C9. In the branch of \<open>set\<close> for a trace that is not positive nothing is
  divided by zero, whatever the matrix: \<open>set\<close> and the part of it after \<open>s\<close> return a
  quaternion for every input, the reciprocal being taken only when \<open>s\<close> is not zero;
  and with \<open>s = 0\<close> each of the four components is assigned \<open>0\<close>, whatever the array
  \<open>tq\<close> held before.
\<close>

theorem set_no_division_by_zero:
  "set_Matrix m \<noteq> None
   \<and> set_fill m i j k s tq \<noteq> None
   \<and> (i < 3 \<longrightarrow>
        set_fill m i (nxt i) (nxt (nxt i)) 0 [a, b, c, d] = Some \<lparr>QX = 0, QY = 0, QZ = 0, QW = 0\<rparr>)"
  using set_Matrix_returns set_fill_returns set_fill_zero by simp

theorem set_no_division_by_zero_witness:
  "set_Matrix (rows [[- 1, 0, 0, 0], [0, - 1, 0, 0], [0, 0, 1, 0], [0, 0, 0, 1]]) \<noteq> None
   \<and> set_fill (rows [[- 1, 0, 0, 0], [0, - 1, 0, 0], [0, 0, 1, 0], [0, 0, 0, 1]]) 2 0 1 0 [7, 7, 7, 7]
       = Some \<lparr>QX = 0, QY = 0, QZ = 0, QW = 0\<rparr>"
proof -
  have "(2::nat) < 3" by simp
  with set_no_division_by_zero
         [of "rows [[- 1, 0, 0, 0], [0, - 1, 0, 0], [0, 0, 1, 0], [0, 0, 0, 1]]" 2 0 1 0 "[7, 7, 7, 7]" 7 7 7 7]
  show ?thesis by (simp add: nxt_simps)
qed

subsection \<open>To a matrix and back\<close>

lemma get_Matrix_diag:
  "get_Matrix q 0 0 = 1 - (QY q * (QY q + QY q) + QZ q * (QZ q + QZ q))"
  "get_Matrix q 1 1 = 1 - (QX q * (QX q + QX q) + QZ q * (QZ q + QZ q))"
  "get_Matrix q 2 2 = 1 - (QX q * (QX q + QX q) + QY q * (QY q + QY q))"
  by (simp_all add: get_Matrix_def rows_def Let_def)

lemma get_Matrix_off_diag:
  "get_Matrix q 0 1 = QX q * (QY q + QY q) - QW q * (QZ q + QZ q)"
  "get_Matrix q 1 0 = QX q * (QY q + QY q) + QW q * (QZ q + QZ q)"
  "get_Matrix q 0 2 = QX q * (QZ q + QZ q) + QW q * (QY q + QY q)"
  "get_Matrix q 2 0 = QX q * (QZ q + QZ q) - QW q * (QY q + QY q)"
  "get_Matrix q 1 2 = QY q * (QZ q + QZ q) - QW q * (QX q + QX q)"
  "get_Matrix q 2 1 = QY q * (QZ q + QZ q) + QW q * (QX q + QX q)"
  by (simp_all add: get_Matrix_def rows_def Let_def)

lemmas get_Matrix_entries =
  get_Matrix_diag get_Matrix_off_diag
  get_Matrix_diag [unfolded One_nat_def] get_Matrix_off_diag [unfolded One_nat_def]

lemma sqrt_four_sq: "sqrt (4 * (u * u)) = 2 * \<bar>u\<bar>" for u :: real
proof -
  have "4 * (u * u) = (2 * u)\<^sup>2" by (simp add: power2_eq_square)
  then have "sqrt (4 * (u * u)) = \<bar>2 * u\<bar>" by (simp only: real_sqrt_abs)
  then show ?thesis by (simp add: abs_mult)
qed

lemma set_fill_get_0:
  assumes "QX q \<noteq> 0"
  shows "set_fill (get_Matrix q) 0 1 2 (2 * \<bar>QX q\<bar>) [0, 0, 0, 0]
         = Some \<lparr>QX = sgn (QX q) * QX q, QY = sgn (QX q) * QY q,
                 QZ = sgn (QX q) * QZ q, QW = - sgn (QX q) * QW q\<rparr>"
  using assms
  by (simp add: set_fill_def fdiv_def get_Matrix_entries sgn_if Let_def field_simps)

lemma set_fill_get_1:
  assumes "QY q \<noteq> 0"
  shows "set_fill (get_Matrix q) 1 2 0 (2 * \<bar>QY q\<bar>) [0, 0, 0, 0]
         = Some \<lparr>QX = sgn (QY q) * QX q, QY = sgn (QY q) * QY q,
                 QZ = sgn (QY q) * QZ q, QW = - sgn (QY q) * QW q\<rparr>"
  using assms
  by (simp add: set_fill_def fdiv_def get_Matrix_entries sgn_if Let_def field_simps)

lemma set_fill_get_2:
  assumes "QZ q \<noteq> 0"
  shows "set_fill (get_Matrix q) 2 0 1 (2 * \<bar>QZ q\<bar>) [0, 0, 0, 0]
         = Some \<lparr>QX = sgn (QZ q) * QX q, QY = sgn (QZ q) * QY q,
                 QZ = sgn (QZ q) * QZ q, QW = - sgn (QZ q) * QW q\<rparr>"
  using assms
  by (simp add: set_fill_def fdiv_def get_Matrix_entries sgn_if Let_def field_simps)


lemma set_Matrix_first:
  assumes "m 0 0 + m 1 1 + m 2 2 > 0"
  shows "set_Matrix m =
           Some \<lparr>QX = (m 1 2 - m 2 1) * (0.5 / sqrt (m 0 0 + m 1 1 + m 2 2 + 1)),
                 QY = (m 2 0 - m 0 2) * (0.5 / sqrt (m 0 0 + m 1 1 + m 2 2 + 1)),
                 QZ = (m 0 1 - m 1 0) * (0.5 / sqrt (m 0 0 + m 1 1 + m 2 2 + 1)),
                 QW = sqrt (m 0 0 + m 1 1 + m 2 2 + 1) / 2\<rparr>"
proof -
  from assms have "sqrt (m 0 0 + m 1 1 + m 2 2 + 1) \<noteq> 0" by simp
  with assms show ?thesis by (simp add: set_Matrix_def fdiv_def Let_def)
qed

lemma set_Matrix_second_0:
  assumes "\<not> m 0 0 + m 1 1 + m 2 2 > 0" and "\<not> m 1 1 > m 0 0" and "\<not> m 2 2 > m 0 0"
  shows "set_Matrix m = set_fill m 0 1 2 (sqrt ((m 0 0 - (m 1 1 + m 2 2)) + 1)) [0, 0, 0, 0]"
  using assms by (simp add: set_Matrix_def nxt_def Let_def)

lemma set_Matrix_second_1:
  assumes "\<not> m 0 0 + m 1 1 + m 2 2 > 0" and "m 1 1 > m 0 0" and "\<not> m 2 2 > m 1 1"
  shows "set_Matrix m = set_fill m 1 2 0 (sqrt ((m 1 1 - (m 2 2 + m 0 0)) + 1)) [0, 0, 0, 0]"
  using assms by (simp add: set_Matrix_def nxt_def Let_def)

lemma set_Matrix_second_2:
  assumes "\<not> m 0 0 + m 1 1 + m 2 2 > 0"
    and "m 1 1 > m 0 0 \<and> m 2 2 > m 1 1 \<or> \<not> m 1 1 > m 0 0 \<and> m 2 2 > m 0 0"
  shows "set_Matrix m = set_fill m 2 0 1 (sqrt ((m 2 2 - (m 0 0 + m 1 1)) + 1)) [0, 0, 0, 0]"
  using assms by (auto simp add: set_Matrix_def nxt_def Let_def)

lemma nonzero_of_four_sq:
  fixes u :: real
  assumes "1 \<le> 4 * (u * u)"
  shows "u \<noteq> 0"
  using assms by auto

lemma set_get_conjugate:
  assumes "dot4 q q = 1"
  shows "\<exists>\<sigma>. (\<sigma> = 1 \<or> \<sigma> = - 1)
            \<and> set_Matrix (get_Matrix q)
                = Some \<lparr>QX = \<sigma> * QX q, QY = \<sigma> * QY q, QZ = \<sigma> * QZ q, QW = - \<sigma> * QW q\<rparr>"
proof -
  let ?m = "get_Matrix q"
  let ?x = "QX q" and ?y = "QY q" and ?z = "QZ q" and ?w = "QW q"
  have unit: "?x * ?x + ?y * ?y + ?z * ?z + ?w * ?w = 1"
    using assms by (simp add: dot4_def)
  have "?m 0 0 + ?m 1 1 + ?m 2 2 + 1 = 4 - 4 * (?x * ?x + ?y * ?y + ?z * ?z)"
    by (simp add: get_Matrix_entries algebra_simps)
  also have "\<dots> = 4 * (?w * ?w)"
    using unit by (simp add: algebra_simps)
  finally have tr: "?m 0 0 + ?m 1 1 + ?m 2 2 + 1 = 4 * (?w * ?w)" .
  have a0: "(?m 0 0 - (?m 1 1 + ?m 2 2)) + 1 = 4 * (?x * ?x)"
    and a1: "(?m 1 1 - (?m 2 2 + ?m 0 0)) + 1 = 4 * (?y * ?y)"
    and a2: "(?m 2 2 - (?m 0 0 + ?m 1 1)) + 1 = 4 * (?z * ?z)"
    by (simp_all add: get_Matrix_entries algebra_simps)
  have sg: "\<And>u::real. u \<noteq> 0 \<Longrightarrow> sgn u = 1 \<or> sgn u = - 1"
    by (simp add: sgn_if)
  consider (first) "?m 0 0 + ?m 1 1 + ?m 2 2 > 0"
    | (i0) "\<not> ?m 0 0 + ?m 1 1 + ?m 2 2 > 0" "\<not> ?m 1 1 > ?m 0 0" "\<not> ?m 2 2 > ?m 0 0"
    | (i1) "\<not> ?m 0 0 + ?m 1 1 + ?m 2 2 > 0" "?m 1 1 > ?m 0 0" "\<not> ?m 2 2 > ?m 1 1"
    | (i2) "\<not> ?m 0 0 + ?m 1 1 + ?m 2 2 > 0"
           "?m 1 1 > ?m 0 0 \<and> ?m 2 2 > ?m 1 1 \<or> \<not> ?m 1 1 > ?m 0 0 \<and> ?m 2 2 > ?m 0 0"
    by linarith
  then show ?thesis
  proof cases
    case first
    then have "0 < 4 * (?w * ?w)" using tr by linarith
    then have w: "?w \<noteq> 0" by auto
    have "set_Matrix ?m
          = Some \<lparr>QX = - sgn ?w * ?x, QY = - sgn ?w * ?y, QZ = - sgn ?w * ?z, QW = - (- sgn ?w) * ?w\<rparr>"
      unfolding set_Matrix_first [of ?m, OF first] tr sqrt_four_sq
      using w by (simp add: get_Matrix_entries sgn_if field_simps)
    moreover have "- sgn ?w = 1 \<or> - sgn ?w = - 1" using sg [OF w] by auto
    ultimately show ?thesis by blast
  next
    case i0
    then have "1 \<le> (?m 0 0 - (?m 1 1 + ?m 2 2)) + 1" by linarith
    then have x: "?x \<noteq> 0" unfolding a0 by (rule nonzero_of_four_sq)
    have "set_Matrix ?m
          = Some \<lparr>QX = sgn ?x * ?x, QY = sgn ?x * ?y, QZ = sgn ?x * ?z, QW = - sgn ?x * ?w\<rparr>"
      unfolding set_Matrix_second_0 [of ?m, OF i0] a0 sqrt_four_sq by (rule set_fill_get_0 [OF x])
    with sg [OF x] show ?thesis by blast
  next
    case i1
    then have "1 \<le> (?m 1 1 - (?m 2 2 + ?m 0 0)) + 1" by linarith
    then have y: "?y \<noteq> 0" unfolding a1 by (rule nonzero_of_four_sq)
    have "set_Matrix ?m
          = Some \<lparr>QX = sgn ?y * ?x, QY = sgn ?y * ?y, QZ = sgn ?y * ?z, QW = - sgn ?y * ?w\<rparr>"
      unfolding set_Matrix_second_1 [of ?m, OF i1] a1 sqrt_four_sq by (rule set_fill_get_1 [OF y])
    with sg [OF y] show ?thesis by blast
  next
    case i2
    then have "1 \<le> (?m 2 2 - (?m 0 0 + ?m 1 1)) + 1" by linarith
    then have z: "?z \<noteq> 0" unfolding a2 by (rule nonzero_of_four_sq)
    have "set_Matrix ?m
          = Some \<lparr>QX = sgn ?z * ?x, QY = sgn ?z * ?y, QZ = sgn ?z * ?z, QW = - sgn ?z * ?w\<rparr>"
      unfolding set_Matrix_second_2 [of ?m, OF i2] a2 sqrt_four_sq by (rule set_fill_get_2 [OF z])
    with sg [OF z] show ?thesis by blast
  qed
qed

text \<open>
  Claim C3 says that \<open>set\<close> after \<open>get\<close> gives back a unit quaternion or its
  negation. The code gives neither for the unit quaternion \<open>(1/2, 1/2, 1/2, 1/2)\<close>:
  the last component comes back with the other sign and the first three with the same.
  \<open>get\<close> writes \<open>m(0,1) = xy - wz\<close> and \<open>m(1,0) = xy + wz\<close>, and \<open>set\<close> reads
  \<open>QZ\<close> from \<open>m(0,1) - m(1,0)\<close>, which is minus twice \<open>wz\<close>: \<open>set\<close> inverts the
  transpose of what \<open>get\<close> writes. Lemma \<open>set_get_conjugate\<close> has the general form: for
  every unit quaternion the round trip returns \<open>(x, y, z, -w)\<close> or its negation.
\<close>

theorem set_get_not_inverse:
  "dot4 \<lparr>QX = 1/2, QY = 1/2, QZ = 1/2, QW = 1/2\<rparr> \<lparr>QX = 1/2, QY = 1/2, QZ = 1/2, QW = 1/2\<rparr> = 1
   \<and> set_Matrix (get_Matrix \<lparr>QX = 1/2, QY = 1/2, QZ = 1/2, QW = 1/2\<rparr>)
       = Some \<lparr>QX = 1/2, QY = 1/2, QZ = 1/2, QW = - (1/2)\<rparr>"
  by (simp add: dot4_def set_Matrix_def get_Matrix_def rows_def set_fill_def fdiv_def nxt_def Let_def)

end
